theory Spec2Isabelle
  imports Complex_Main
begin

section \<open>Boxes, piles and the exen partition (hio.base.hier.boxing)\<close>

subsection \<open>Data model\<close>

text \<open>
  Box instances are Python objects compared with \<^verbatim>\<open>is\<close>, so a box is an
  address and the boxes live in a store. Every address denotes a box: Python has no
  dangling reference.
\<close>

type_synonym ref = nat

text \<open>
  The value of \<^verbatim>\<open>Box.over\<close> and of \<^verbatim>\<open>Tract.dest\<close>:
  \<^verbatim>\<open>None\<close>, a box name still to be resolved, or a box.
\<close>

datatype link = LNone | LStr string | LBox ref

datatype error = HierError | AttributeError | UnboundLocalError | KeyError | TypeError | GuardError

record box =
  name :: string
  over :: link
  unders :: "ref list"
  pile_c :: "ref list option"
  spot_c :: "nat option"
  trail_c :: "string option"
  enacts :: "string list"
  tracts :: "link list"
  next_c :: "ref option"

type_synonym heap = "ref \<Rightarrow> box"

text \<open>
  The outcome of a method: \<open>None\<close> when it never returns, \<open>Some (Inl e)\<close> when it
  raises \<open>e\<close>, \<open>Some (Inr v)\<close> when it returns \<open>v\<close>.
\<close>

type_synonym 'a outcome = "(error + 'a) option"

definition bind_oc :: "'a outcome \<Rightarrow> ('a \<Rightarrow> 'b outcome) \<Rightarrow> 'b outcome" where
  "bind_oc m f = (case m of None \<Rightarrow> None | Some (Inl e) \<Rightarrow> Some (Inl e) | Some (Inr v) \<Rightarrow> f v)"

text \<open>\<^verbatim>\<open>Box.__init__\<close>: the fields of a new box; \<^verbatim>\<open>name='box'\<close>, \<^verbatim>\<open>over=None\<close> by default.\<close>

definition Box_init :: "string \<Rightarrow> link \<Rightarrow> box" where
  "Box_init n ov = \<lparr>name = n, over = ov, unders = [], pile_c = None, spot_c = None,
     trail_c = None, enacts = [], tracts = [], next_c = None\<rparr>"

text \<open>Python truth value of an \<^verbatim>\<open>over\<close> value: \<^verbatim>\<open>None\<close> and the empty string are false.\<close>

fun truthy :: "link \<Rightarrow> bool" where
  "truthy LNone = False"
| "truthy (LStr s) = (s \<noteq> [])"
| "truthy (LBox r) = True"

text \<open>\<^verbatim>\<open>b.unders[0] if b.unders else None\<close>\<close>

definition first_under :: "box \<Rightarrow> ref option" where
  "first_under b = (case unders b of [] \<Rightarrow> None | u # _ \<Rightarrow> Some u)"

subsection \<open>Box._trace and the lazy properties\<close>

text \<open>
  \<^verbatim>\<open>while over: pile.insert(0, over); over = over.over\<close>.
  A non-empty string is true, is inserted, and then has no attribute \<^verbatim>\<open>over\<close>.
  On a cycle of over links the loop never ends.
\<close>

partial_function (option) walk_over :: "heap \<Rightarrow> link \<Rightarrow> ref list \<Rightarrow> (error + ref list) option" where
  "walk_over h ov pile =
     (if truthy ov then
        (case ov of
           LBox r \<Rightarrow> walk_over h (over (h r)) (r # pile)
         | LStr s \<Rightarrow> Some (Inl AttributeError)
         | LNone \<Rightarrow> Some (Inr pile))
      else Some (Inr pile))"

text \<open>\<^verbatim>\<open>while under: pile.append(under); under = under.unders[0] if under.unders else None\<close>\<close>

partial_function (option) walk_under :: "heap \<Rightarrow> ref option \<Rightarrow> ref list \<Rightarrow> ref list option" where
  "walk_under h u0 pile =
     (case u0 of
        None \<Rightarrow> Some pile
      | Some u \<Rightarrow> walk_under h (first_under (h u)) (pile @ [u]))"

text \<open>\<^verbatim>\<open>sep.join(parts)\<close>\<close>

fun join :: "string \<Rightarrow> string list \<Rightarrow> string" where
  "join sep [] = []"
| "join sep [x] = x"
| "join sep (x # y # ys) = x @ sep @ join sep (y # ys)"

definition trail_of :: "heap \<Rightarrow> ref \<Rightarrow> ref list \<Rightarrow> nat \<Rightarrow> string" where
  "trail_of h self pile spot =
     join ''<'' (map (\<lambda>r. name (h r)) (take spot pile)) @ ''<'' @ name (h self) @ ''>'' @
     join ''>'' (map (\<lambda>r. name (h r)) (drop (spot + 1) pile))"

text \<open>
  The first half of \<^verbatim>\<open>_trace\<close>: the pile and the spot it computes from the links.
\<close>

definition trace_pile :: "heap \<Rightarrow> ref \<Rightarrow> (ref list \<times> nat) outcome" where
  "trace_pile h self =
     bind_oc (walk_over h (over (h self)) []) (\<lambda>up.
       let pile0 = up @ [self]; spot = length pile0 - 1 in
       case walk_under h (first_under (h self)) pile0 of
         None \<Rightarrow> None
       | Some pile \<Rightarrow> Some (Inr (pile, spot)))"

text \<open>
  The second half of \<^verbatim>\<open>_trace\<close> stores pile, spot and trail in the box; no link
  changes.
\<close>

definition store_trace :: "heap \<Rightarrow> ref \<Rightarrow> ref list \<Rightarrow> nat \<Rightarrow> heap" where
  "store_trace h self pl sp =
     h(self := (h self)\<lparr>pile_c := Some pl, spot_c := Some sp,
                          trail_c := Some (trail_of h self pl sp)\<rparr>)"

definition trace :: "heap \<Rightarrow> ref \<Rightarrow> heap outcome" where
  "trace h self =
     bind_oc (trace_pile h self) (\<lambda>(pl, sp). Some (Inr (store_trace h self pl sp)))"

text \<open>The property \<^verbatim>\<open>Box.pile\<close>: trace when \<^verbatim>\<open>_pile\<close> is \<^verbatim>\<open>None\<close>, then return \<^verbatim>\<open>_pile\<close>.\<close>

definition pile :: "heap \<Rightarrow> ref \<Rightarrow> (ref list option \<times> heap) outcome" where
  "pile h self =
     (if pile_c (h self) = None
      then bind_oc (trace h self) (\<lambda>h'. Some (Inr (pile_c (h' self), h')))
      else Some (Inr (pile_c (h self), h)))"

definition spot :: "heap \<Rightarrow> ref \<Rightarrow> (nat option \<times> heap) outcome" where
  "spot h self =
     (if spot_c (h self) = None
      then bind_oc (trace h self) (\<lambda>h'. Some (Inr (spot_c (h' self), h')))
      else Some (Inr (spot_c (h self), h)))"

subsection \<open>Boxer.exen\<close>

type_synonym quad = "ref list \<times> ref list \<times> ref list \<times> ref list"

text \<open>
  \<^verbatim>\<open>for i in range(l): if (far is nears[i]) or (fars[i] is not nears[i]): return (...)\<close>;
  falling out of the loop returns \<^verbatim>\<open>None\<close>.
\<close>

function exen_scan :: "ref \<Rightarrow> ref list \<Rightarrow> ref list \<Rightarrow> nat \<Rightarrow> nat \<Rightarrow> quad option" where
  "exen_scan far nears fars l i =
     (if i < l then
        (if far = nears ! i \<or> fars ! i \<noteq> nears ! i
         then Some (rev (drop i nears), drop i fars, rev (take i nears), take i fars)
         else exen_scan far nears fars l (Suc i))
      else None)"
  by pat_completeness auto
termination
  by (relation "measure (\<lambda>(far, nears, fars, l, i). l - i)") auto

declare exen_scan.simps [simp del]

text \<open>\<^verbatim>\<open>len\<close> of a value that is \<^verbatim>\<open>None\<close> raises TypeError.\<close>

definition exen :: "heap \<Rightarrow> ref \<Rightarrow> ref \<Rightarrow> (quad option \<times> heap) outcome" where
  "exen h near far =
     bind_oc (pile h near) (\<lambda>(nears, h1).
     bind_oc (pile h1 far) (\<lambda>(fars, h2).
       case (nears, fars) of
         (Some ns, Some fs) \<Rightarrow>
           Some (Inr (exen_scan far ns fs (min (length ns) (length fs)) 0, h2))
       | _ \<Rightarrow> Some (Inl TypeError)))"


subsection \<open>Assignments to the links of a box\<close>

text \<open>
  \<^verbatim>\<open>over\<close> and \<^verbatim>\<open>unders\<close> are plain attributes: \<^verbatim>\<open>box.over = v\<close> and any
  change of the list \<^verbatim>\<open>box.unders\<close> (such as \<^verbatim>\<open>box.unders.append(u)\<close>) write that
  field and nothing else.
\<close>

definition set_over :: "heap \<Rightarrow> ref \<Rightarrow> link \<Rightarrow> heap" where
  "set_over h r v = h(r := (h r)\<lparr>over := v\<rparr>)"

definition set_unders :: "heap \<Rightarrow> ref \<Rightarrow> ref list \<Rightarrow> heap" where
  "set_unders h r us = h(r := (h r)\<lparr>unders := us\<rparr>)"

subsection \<open>Shapes of piles and of the link structure\<close>

text \<open>Each element's over is the element before it.\<close>

fun over_linked :: "heap \<Rightarrow> ref list \<Rightarrow> bool" where
  "over_linked h (x # y # ys) = (over (h y) = LBox x \<and> over_linked h (y # ys))"
| "over_linked h [x] = True"
| "over_linked h [] = True"

text \<open>Each element's primary under is the element after it.\<close>

fun under_linked :: "heap \<Rightarrow> ref list \<Rightarrow> bool" where
  "under_linked h (x # y # ys) = (first_under (h x) = Some y \<and> under_linked h (y # ys))"
| "under_linked h [x] = True"
| "under_linked h [] = True"

text \<open>
  The two directions in which \<^verbatim>\<open>Boxer.bx\<close> keeps over and unders consistent
  (\<^verbatim>\<open>box.over.unders.append(box)\<close> for the only box whose over it sets):
  a primary under has its parent as over, and a box is listed among the unders of its over.
\<close>

definition unders_ok :: "heap \<Rightarrow> bool" where
  "unders_ok h \<longleftrightarrow> (\<forall>b u. first_under (h b) = Some u \<longrightarrow> over (h u) = LBox b)"

definition overs_ok :: "heap \<Rightarrow> bool" where
  "overs_ok h \<longleftrightarrow> (\<forall>b p. over (h b) = LBox p \<longrightarrow> b \<in> set (unders (h p)))"

subsection \<open>Concrete box works\<close>

definition heap0 :: heap where
  "heap0 = (\<lambda>_. Box_init ''box'' LNone)"

text \<open>One pile: A (0) over B (1) over C (2).\<close>

definition heap_ABC :: heap where
  "heap_ABC = heap0
     (0 := (Box_init ''A'' LNone)\<lparr>unders := [1]\<rparr>,
      1 := (Box_init ''B'' (LBox 0))\<lparr>unders := [2]\<rparr>,
      2 := Box_init ''C'' (LBox 1))"

text \<open>Two branches: R (0) over A (1) over X (2) and Y (3), X the primary under of A.\<close>

definition heap_RAXY :: heap where
  "heap_RAXY = heap0
     (0 := (Box_init ''R'' LNone)\<lparr>unders := [1]\<rparr>,
      1 := (Box_init ''A'' (LBox 0))\<lparr>unders := [2, 3]\<rparr>,
      2 := Box_init ''X'' (LBox 1),
      3 := Box_init ''Y'' (LBox 1))"

text \<open>Two trees: P (0) over Q (1), and R (2) over S (3).\<close>

definition heap_PQRS :: heap where
  "heap_PQRS = heap0
     (0 := (Box_init ''P'' LNone)\<lparr>unders := [1]\<rparr>,
      1 := Box_init ''Q'' (LBox 0),
      2 := (Box_init ''R'' LNone)\<lparr>unders := [3]\<rparr>,
      3 := Box_init ''S'' (LBox 2))"

text \<open>
  \<^verbatim>\<open>A = Box(name='A'); B = Box(name='B', over=A)\<close>: the constructor sets
  \<^verbatim>\<open>B.over\<close> and leaves \<^verbatim>\<open>A.unders\<close> empty. A is 0, B is 1.
\<close>

definition heap_AB :: heap where
  "heap_AB = heap0 (0 := Box_init ''A'' LNone, 1 := Box_init ''B'' (LBox 0))"

subsection \<open>Boxer.resolve\<close>

text \<open>
  \<^verbatim>\<open>Boxer.boxes\<close> is a dict from box name to box, iterated in insertion order: an
  association list with \<^verbatim>\<open>self.boxes[k]\<close> as \<open>map_of\<close>.
\<close>

type_synonym boxes = "(string \<times> ref) list"

fun is_str :: "link \<Rightarrow> bool" where
  "is_str (LStr s) = True"
| "is_str _ = False"

text \<open>
  One tract of \<^verbatim>\<open>for tract in box.tracts\<close>, the tract given by its dest. For
  \<^verbatim>\<open>'next'\<close> the HierError is built and not raised, and dest becomes \<^verbatim>\<open>box._next\<close>.
\<close>

definition resolve_dest :: "boxes \<Rightarrow> ref option \<Rightarrow> link \<Rightarrow> error + link" where
  "resolve_dest bxs nxt d =
     (case d of
        LStr s \<Rightarrow>
          (if s = ''next''
           then Inr (case nxt of None \<Rightarrow> LNone | Some r \<Rightarrow> LBox r)
           else (case map_of bxs s of None \<Rightarrow> Inl HierError | Some r \<Rightarrow> Inr (LBox r)))
      | _ \<Rightarrow> Inr d)"

fun resolve_tracts :: "boxes \<Rightarrow> ref option \<Rightarrow> link list \<Rightarrow> error + link list" where
  "resolve_tracts bxs nxt [] = Inr []"
| "resolve_tracts bxs nxt (d # ds) =
     (case resolve_dest bxs nxt d of
        Inl e \<Rightarrow> Inl e
      | Inr d' \<Rightarrow> (case resolve_tracts bxs nxt ds of Inl e \<Rightarrow> Inl e | Inr ds' \<Rightarrow> Inr (d' # ds')))"

text \<open>
  The loop \<^verbatim>\<open>for name, box in self.boxes.items()\<close>. The local variable
  \<^verbatim>\<open>over\<close> of \<^verbatim>\<open>resolve\<close> is the third argument, \<open>None\<close> while it is unbound.
  \<^verbatim>\<open>over = self.boxes[over]\<close> reads the local \<^verbatim>\<open>over\<close>, not \<^verbatim>\<open>box.over\<close>:
  unbound it raises UnboundLocalError, which \<^verbatim>\<open>except KeyError\<close> does not catch; bound to
  a box it is no key of the dict of names, and the KeyError is raised again as HierError.
  So the assignment never completes and the lines after it are never reached.
\<close>

fun resolve_items :: "boxes \<Rightarrow> boxes \<Rightarrow> ref option \<Rightarrow> heap \<Rightarrow> error + heap" where
  "resolve_items bxs [] ovl h = Inr h"
| "resolve_items bxs ((nm, b) # rest) ovl h =
     (if is_str (over (h b))
      then (case ovl of None \<Rightarrow> Inl UnboundLocalError | Some ob \<Rightarrow> Inl HierError)
      else (case resolve_tracts bxs (next_c (h b)) (tracts (h b)) of
              Inl e \<Rightarrow> Inl e
            | Inr ts \<Rightarrow> resolve_items bxs rest ovl (h(b := (h b)\<lparr>tracts := ts\<rparr>))))"

definition resolve :: "boxes \<Rightarrow> heap \<Rightarrow> error + heap" where
  "resolve bxs h = resolve_items bxs bxs None h"

text \<open>
  \<^verbatim>\<open>boxes = {'a': Box(name='a', over='b'), 'b': Box(name='b')}\<close>, a is 0 and b is 1; and
  the same with \<^verbatim>\<open>over='zz'\<close>, no key of boxes.
\<close>

definition boxes_ab :: boxes where
  "boxes_ab = [(''a'', 0), (''b'', 1)]"

definition heap_ab :: heap where
  "heap_ab = heap0 (0 := Box_init ''a'' (LStr ''b''), 1 := Box_init ''b'' LNone)"

definition heap_azz :: heap where
  "heap_azz = heap0 (0 := Box_init ''a'' (LStr ''zz''), 1 := Box_init ''b'' LNone)"

subsection \<open>Boxer.do\<close>

text \<open>
  Modelled from the spec: the construction record \<^verbatim>\<open>WorkDom\<close>, of hiering.py, which
  is not among the sources; its fields are those that the docstrings of the verbs list.
\<close>

record workdom =
  wd_box :: "ref option"
  wd_over :: link
  bxpre :: string
  bxidx :: int

text \<open>\<^verbatim>\<open>str(n)\<close> for an int.\<close>

definition digit_char :: "nat \<Rightarrow> char" where
  "digit_char d = ''0123456789'' ! d"

function str_nat :: "nat \<Rightarrow> string" where
  "str_nat n = (if n < 10 then [digit_char n] else str_nat (n div 10) @ [digit_char (n mod 10)])"
  by pat_completeness auto
termination
  by (relation "measure id") auto

declare str_nat.simps [simp del]

definition str_int :: "int \<Rightarrow> string" where
  "str_int i = (if i < 0 then ''-'' @ str_nat (nat (- i)) else str_nat (nat i))"

text \<open>
  \<^verbatim>\<open>while deed in self.boxes: deed = 'act' + str(m.bxidx); m.bxidx += 1\<close>
\<close>

partial_function (option) do_name :: "boxes \<Rightarrow> string \<Rightarrow> int \<Rightarrow> (string \<times> int) option" where
  "do_name bxs deed idx =
     (if map_of bxs deed \<noteq> None
      then do_name bxs (''act'' @ str_int idx) (idx + 1)
      else Some (deed, idx))"

text \<open>
  \<^verbatim>\<open>do(deed, mods=m)\<close> returns the deed it was given, or a generated name; it reads
  \<^verbatim>\<open>self.boxes\<close> and writes \<^verbatim>\<open>m.bxidx\<close> only. The store of boxes is passed through
  to show that no box changes.
\<close>

definition do :: "boxes \<Rightarrow> heap \<Rightarrow> workdom \<Rightarrow> string option \<Rightarrow> (string \<times> workdom \<times> heap) outcome" where
  "do bxs h m deed =
     (case deed of
        None \<Rightarrow>
          (case do_name bxs (''act'' @ str_int (bxidx m)) (bxidx m + 1) of
             None \<Rightarrow> None
           | Some (d, i) \<Rightarrow> Some (Inr (d, m\<lparr>bxidx := i\<rparr>, h)))
      | Some d \<Rightarrow> (if d = [] then Some (Inl HierError) else Some (Inr (d, m, h))))"

text \<open>A boxer with the one box b0 (0), the current box of the construction record.\<close>

definition boxes_b0 :: boxes where
  "boxes_b0 = [(''b0'', 0)]"

definition heap_b0 :: heap where
  "heap_b0 = heap0 (0 := Box_init ''b0'' LNone)"

definition works_b0 :: workdom where
  "works_b0 = \<lparr>wd_box = Some 0, wd_over = LNone, bxpre = ''box'', bxidx = 1\<rparr>"

section \<open>Acts (hio.base.hier.acting)\<close>

subsection \<open>Goact.__init__\<close>

text \<open>
  Modelled from the spec: the constants of \<^verbatim>\<open>hiering.Nabe\<close>, which is not among
  the sources. The nabe of an act is a string; acting.py uses \<^verbatim>\<open>Nabe.godo\<close>,
  \<^verbatim>\<open>Nabe.endo\<close> and \<^verbatim>\<open>Nabe.enmark\<close>, and the spec names these nabes by the
  same words.
\<close>

definition Nabe_godo :: string where "Nabe_godo = ''godo''"
definition Nabe_endo :: string where "Nabe_endo = ''endo''"
definition Nabe_enmark :: string where "Nabe_enmark = ''enmark''"

text \<open>The inherited keyword parameters \<^verbatim>\<open>**kwa\<close>: a keyword is \<open>None\<close> when not passed.\<close>

record kwargs =
  kw_name :: "string option"
  kw_iops :: "(string \<times> string) list"
  kw_nabe :: "string option"

text \<open>The inherited part of an act: what \<^verbatim>\<open>ActBase.__init__\<close> leaves in the instance.\<close>

record act =
  act_name :: string
  act_iops :: "(string \<times> string) list"
  act_nabe :: string

record goact = act +
  dest :: link
  need :: "string option"

text \<open>
  Modelled from the spec: \<^verbatim>\<open>ActBase.__init__\<close>, of hiering.py, which is not among the
  sources. The docstrings of its subclasses give its parameters: \<^verbatim>\<open>name\<close>, generated
  from the class name and \<^verbatim>\<open>.Index\<close> when None; \<^verbatim>\<open>iops\<close>, empty when None;
  \<^verbatim>\<open>nabe\<close>, the nabe of the act, \<^verbatim>\<open>endo\<close> by default. The spec: every act carries
  name, iops and nabe.
\<close>

definition ActBase_init :: "string \<Rightarrow> nat \<Rightarrow> kwargs \<Rightarrow> error + act" where
  "ActBase_init cls idx kwa =
     Inr \<lparr>act_name = (case kw_name kwa of None \<Rightarrow> cls @ str_nat idx | Some n \<Rightarrow> n),
          act_iops = kw_iops kwa,
          act_nabe = (case kw_nabe kwa of None \<Rightarrow> Nabe_endo | Some n \<Rightarrow> n)\<rparr>"

text \<open>
  \<^verbatim>\<open>Goact.__init__(dest, need, **kwa)\<close>, over any initialiser \<open>base\<close> of the superclass:
  \<^verbatim>\<open>kwa.update(nabe=Nabe.godo)\<close> comes first, then \<^verbatim>\<open>super().__init__(**kwa)\<close>, the
  defaults of dest and need, and the test of \<^verbatim>\<open>self.nabe\<close>. The need is its expression,
  \<open>None\<close> for the default \<^verbatim>\<open>Need()\<close>.
\<close>

definition Goact_init :: "(kwargs \<Rightarrow> error + act) \<Rightarrow> link \<Rightarrow> string option \<Rightarrow> kwargs \<Rightarrow> error + goact" where
  "Goact_init base dst nd kwa =
     (case base (kwa\<lparr>kw_nabe := Some Nabe_godo\<rparr>) of
        Inl e \<Rightarrow> Inl e
      | Inr a \<Rightarrow>
          (if act_nabe a \<noteq> Nabe_godo then Inl HierError
           else Inr (act.extend a
                  \<lparr>dest = (case dst of LNone \<Rightarrow> LStr ''next'' | d \<Rightarrow> d), need = nd\<rparr>)))"

subsection \<open>The mine and its bags\<close>

text \<open>
  The payload of a bag: \<^verbatim>\<open>None\<close>, a bool, a number or a string. A tyme is a number;
  the float that is not a number is left out.
\<close>

datatype val = VNone | VBool bool | VNum real | VStr string

text \<open>
  Modelled from the spec: \<^verbatim>\<open>Bag\<close>, of bagging.py, which is not among the sources: a
  record with a \<^verbatim>\<open>value\<close> (initially null) and \<^verbatim>\<open>_tyme\<close>, the virtual time of the
  last mutation (unset until the first write).
\<close>

record bag =
  bag_value :: val
  bag_tyme :: "real option"

definition Bag_init :: bag where
  "Bag_init = \<lparr>bag_value = VNone, bag_tyme = None\<rparr>"



text \<open>
  Modelled from the spec: \<^verbatim>\<open>Mine\<close>, of hio.help, which is not among the sources: a
  mapping from a key path, a sequence of strings, to a bag; a key is accepted as a sequence
  or as a dotted string, and a miss on lookup fails with a key error.
\<close>

type_synonym mine = "string list \<rightharpoonup> bag"

fun split_dots :: "string \<Rightarrow> string list" where
  "split_dots [] = [[]]"
| "split_dots (c # cs) =
     (if c = CHR ''.'' then [] # split_dots cs
      else (case split_dots cs of [] \<Rightarrow> [[c]] | w # ws \<Rightarrow> (c # w) # ws))"

definition mine_key :: "string \<Rightarrow> string list" where
  "mine_key k = split_dots k"

subsection \<open>Mark and UpdateMark\<close>

type_synonym iops = "string \<rightharpoonup> string"

text \<open>\<^verbatim>\<open>("", "boxer", boxer, "box", box, "update", key)\<close>\<close>

definition update_keys :: "string \<Rightarrow> string \<Rightarrow> string \<Rightarrow> string list" where
  "update_keys boxer bx key = ['''', ''boxer'', boxer, ''box'', bx, ''update'', key]"

text \<open>Sequencing of steps that may raise.\<close>

definition bind_err :: "error + 'a \<Rightarrow> ('a \<Rightarrow> error + 'b) \<Rightarrow> error + 'b" where
  "bind_err r f = (case r of Inl e \<Rightarrow> Inl e | Inr v \<Rightarrow> f v)"

text \<open>\<^verbatim>\<open>self.iops[k]\<close>, a miss raising \<open>e\<close>; \<^verbatim>\<open>self.mine[k]\<close>, a miss raising \<open>e\<close>.\<close>

definition iop :: "error \<Rightarrow> iops \<Rightarrow> string \<Rightarrow> error + string" where
  "iop e io k = (case io k of None \<Rightarrow> Inl e | Some v \<Rightarrow> Inr v)"


text \<open>
  \<^verbatim>\<open>Mark.__init__\<close> after the initialiser of the superclass: the three iops, each miss
  a HierError, and \<^verbatim>\<open>if key not in self.mine: raise HierError\<close>.
\<close>

definition Mark_init :: "iops \<Rightarrow> mine \<Rightarrow> error + unit" where
  "Mark_init io m =
     bind_err (iop HierError io ''_boxer'') (\<lambda>boxer.
     bind_err (iop HierError io ''_box'') (\<lambda>bx.
     bind_err (iop HierError io ''_key'') (\<lambda>key.
       if m (mine_key key) = None then Inl HierError else Inr ())))"

text \<open>
  \<^verbatim>\<open>UpdateMark.__init__\<close>: \<^verbatim>\<open>Mark.__init__\<close>, then the mark bag is created when
  the mine has none.
\<close>

definition UpdateMark_init :: "iops \<Rightarrow> mine \<Rightarrow> error + mine" where
  "UpdateMark_init io m =
     bind_err (Mark_init io m) (\<lambda>_.
     bind_err (iop KeyError io ''_boxer'') (\<lambda>boxer.
     bind_err (iop KeyError io ''_box'') (\<lambda>bx.
     bind_err (iop KeyError io ''_key'') (\<lambda>key.
       let keys = update_keys boxer bx key
       in if m keys = None then Inr (m(keys \<mapsto> Bag_init)) else Inr m))))"




section \<open>The builder and the box works it makes (hio.base.hier.boxing)\<close>

subsection \<open>Boxer.bx\<close>

text \<open>
  A boxer, as far as the builder goes: the dict \<^verbatim>\<open>boxes\<close>, the store of all boxes, and
  the address that the next \<^verbatim>\<open>Box(...)\<close> gets. Addresses are handed out in order, so the
  boxes made so far are those below \<open>bx_next\<close>.
\<close>

record boxer =
  bx_boxes :: boxes
  bx_heap :: heap
  bx_next :: ref

text \<open>\<^verbatim>\<open>self.boxes[k] = v\<close>: the value of an old key is replaced in place, a new key comes last.\<close>

fun dict_set :: "boxes \<Rightarrow> string \<Rightarrow> ref \<Rightarrow> boxes" where
  "dict_set [] k v = [(k, v)]"
| "dict_set ((k', v') # kvs) k v = (if k' = k then (k, v) # kvs else (k', v') # dict_set kvs k v)"

text \<open>
  \<^verbatim>\<open>while name in self.boxes: name = m.bxpre + str(m.bxidx); m.bxidx += 1\<close>
\<close>

partial_function (option) bx_name :: "boxes \<Rightarrow> string \<Rightarrow> string \<Rightarrow> int \<Rightarrow> (string \<times> int) option" where
  "bx_name bxs pre nm idx =
     (if map_of bxs nm \<noteq> None
      then bx_name bxs pre (pre @ str_int idx) (idx + 1)
      else Some (nm, idx))"

text \<open>
  The name of the new box and the new \<^verbatim>\<open>m.bxidx\<close>: a generated name for \<^verbatim>\<open>None\<close>,
  HierError for the empty string.
\<close>

definition bx_pick_name :: "boxes \<Rightarrow> workdom \<Rightarrow> string option \<Rightarrow> (string \<times> int) outcome" where
  "bx_pick_name bxs m nm =
     (case nm of
        None \<Rightarrow>
          (case bx_name bxs (bxpre m) (bxpre m @ str_int (bxidx m)) (bxidx m + 1) of
             None \<Rightarrow> None
           | Some r \<Rightarrow> Some (Inr r))
      | Some n \<Rightarrow> (if n = [] then Some (Inl HierError) else Some (Inr (n, bxidx m))))"

text \<open>
  The over of the new box, with the dict after it: \<^verbatim>\<open>None\<close> stays; the empty string is the
  current level \<^verbatim>\<open>m.over\<close>; a name is looked up, a miss raising HierError; a box is taken
  as it is, and entered under its name when the dict does not have that name.
\<close>

definition bx_over :: "boxer \<Rightarrow> workdom \<Rightarrow> link \<Rightarrow> error + link \<times> boxes" where
  "bx_over s m ov =
     (case ov of
        LNone \<Rightarrow> Inr (LNone, bx_boxes s)
      | LStr v \<Rightarrow>
          (if v = [] then Inr (wd_over m, bx_boxes s)
           else (case map_of (bx_boxes s) v of
                   None \<Rightarrow> Inl HierError
                 | Some r \<Rightarrow> Inr (LBox r, bx_boxes s)))
      | LBox r \<Rightarrow>
          (if map_of (bx_boxes s) (name (bx_heap s r)) = None
           then Inr (LBox r, dict_set (bx_boxes s) (name (bx_heap s r)) r)
           else Inr (LBox r, bx_boxes s)))"

text \<open>
  What \<^verbatim>\<open>bx\<close> writes to the store: the new box \<open>b\<close> from \<^verbatim>\<open>Box(name=name, over=over)\<close>,
  \<^verbatim>\<open>box.over.unders.append(box)\<close> when the over is a box, and \<^verbatim>\<open>m.box._next = box\<close>
  when there is a current box.
\<close>

definition bx_store :: "heap \<Rightarrow> workdom \<Rightarrow> ref \<Rightarrow> string \<Rightarrow> link \<Rightarrow> heap" where
  "bx_store h m b n ov =
     (let h1 = h(b := Box_init n ov);
          h2 = (case ov of
                  LBox p \<Rightarrow> h1(p := (h1 p)\<lparr>unders := unders (h1 p) @ [b]\<rparr>)
                | _ \<Rightarrow> h1)
      in (case wd_box m of
            Some c \<Rightarrow> h2(c := (h2 c)\<lparr>next_c := Some b\<rparr>)
          | None \<Rightarrow> h2))"

text \<open>
  \<^verbatim>\<open>bx(name, over, mods=m)\<close>. The argument \<open>renam\<close> stands for \<^verbatim>\<open>Renam.match\<close>, the
  test of the name setter of Box; Renam is not among the sources. An over that is still a
  string after the resolution (only \<^verbatim>\<open>m.over\<close> can be one) has no attribute
  \<^verbatim>\<open>unders\<close>.
\<close>

definition bx :: "(string \<Rightarrow> bool) \<Rightarrow> boxer \<Rightarrow> workdom \<Rightarrow> string option \<Rightarrow> link \<Rightarrow>
    (ref \<times> boxer \<times> workdom) outcome" where
  "bx renam s m nm ov =
     bind_oc (bx_pick_name (bx_boxes s) m nm) (\<lambda>(n, idx).
       if map_of (bx_boxes s) n \<noteq> None then Some (Inl HierError)
       else (case bx_over s m ov of
               Inl e \<Rightarrow> Some (Inl e)
             | Inr (ov', bxs) \<Rightarrow>
                 (if \<not> renam n then Some (Inl HierError)
                  else if is_str ov' then Some (Inl AttributeError)
                  else Some (Inr (bx_next s,
                         \<lparr>bx_boxes = dict_set bxs n (bx_next s),
                          bx_heap = bx_store (bx_heap s) m (bx_next s) n ov',
                          bx_next = Suc (bx_next s)\<rparr>,
                         m\<lparr>wd_box := Some (bx_next s), wd_over := ov', bxidx := idx\<rparr>)))))"


subsection \<open>Box works made by the constructor and the builder\<close>
















subsection \<open>Boxer.on\<close>



section \<open>Properties of the traced pile\<close>

subsection \<open>What the two walks of the trace return\<close>

lemma over_linked_nth:
  "over_linked h xs \<Longrightarrow> Suc i < length xs \<Longrightarrow> over (h (xs ! Suc i)) = LBox (xs ! i)"
proof (induction h xs arbitrary: i rule: over_linked.induct)
  case (1 h x y ys)
  then show ?case by (cases i) auto
qed auto

lemma under_linked_nth:
  "under_linked h xs \<Longrightarrow> Suc i < length xs \<Longrightarrow> first_under (h (xs ! i)) = Some (xs ! Suc i)"
proof (induction h xs arbitrary: i rule: under_linked.induct)
  case (1 h x y ys)
  then show ?case by (cases i) auto
qed auto

lemma under_linked_snoc:
  "under_linked h xs \<Longrightarrow> xs \<noteq> [] \<Longrightarrow> first_under (h (last xs)) = Some u \<Longrightarrow> under_linked h (xs @ [u])"
  by (induction h xs rule: under_linked.induct) auto

lemma walk_over_spec_aux:
  assumes "walk_over h0 ov0 acc0 = Some y0"
  shows "\<forall>p. y0 = Inr p \<longrightarrow> over_linked h0 (acc0 @ [b]) \<longrightarrow> ov0 = over (h0 (hd (acc0 @ [b]))) \<longrightarrow>
     (\<exists>U. p = U @ acc0 \<and> over_linked h0 (p @ [b]) \<and> \<not> truthy (over (h0 (hd (p @ [b])))))"
proof (rule walk_over.raw_induct[where P = "\<lambda>h ov acc y. \<forall>p. y = Inr p \<longrightarrow> over_linked h (acc @ [b]) \<longrightarrow>
     ov = over (h (hd (acc @ [b]))) \<longrightarrow>
     (\<exists>U. p = U @ acc \<and> over_linked h (p @ [b]) \<and> \<not> truthy (over (h (hd (p @ [b])))))", OF _ assms])
  fix w h ov acc y
  assume IH: "\<And>h ov acc y. w h ov acc = Some y \<Longrightarrow> \<forall>p. y = Inr p \<longrightarrow> over_linked h (acc @ [b]) \<longrightarrow>
     ov = over (h (hd (acc @ [b]))) \<longrightarrow>
     (\<exists>U. p = U @ acc \<and> over_linked h (p @ [b]) \<and> \<not> truthy (over (h (hd (p @ [b])))))"
    and body: "(if truthy ov
      then case ov of LNone \<Rightarrow> Some (Inr acc)
           | LStr s \<Rightarrow> Some (Inl AttributeError)
           | LBox r \<Rightarrow> w h (over (h r)) (r # acc)
      else Some (Inr acc)) = Some y"
  show "\<forall>p. y = Inr p \<longrightarrow> over_linked h (acc @ [b]) \<longrightarrow>
     ov = over (h (hd (acc @ [b]))) \<longrightarrow>
     (\<exists>U. p = U @ acc \<and> over_linked h (p @ [b]) \<and> \<not> truthy (over (h (hd (p @ [b])))))"
  proof (intro allI impI)
    fix p
    assume y: "y = Inr p" and lk: "over_linked h (acc @ [b])"
      and ov: "ov = over (h (hd (acc @ [b])))"
    show "\<exists>U. p = U @ acc \<and> over_linked h (p @ [b]) \<and> \<not> truthy (over (h (hd (p @ [b]))))"
    proof (cases ov)
      case LNone
      with body y have "p = acc" by simp
      with LNone ov lk show ?thesis by simp
    next
      case (LStr s)
      with body y have "p = acc" "s = []" by (simp_all split: if_splits)
      with LStr ov lk show ?thesis by simp
    next
      case (LBox r)
      with body y have rec: "w h (over (h r)) (r # acc) = Some (Inr p)" by simp
      have lk': "over_linked h ((r # acc) @ [b])"
        using lk ov LBox by (cases acc) auto
      have "over (h r) = over (h (hd ((r # acc) @ [b])))" by simp
      with IH[OF rec] lk' obtain U where "p = U @ r # acc" "over_linked h (p @ [b])"
        "\<not> truthy (over (h (hd (p @ [b]))))" by blast
      then show ?thesis by (intro exI[of _ "U @ [r]"]) simp
    qed
  qed
qed

lemma walk_over_spec:
  assumes "walk_over h ov acc = Some (Inr p)"
    and "over_linked h (acc @ [b])"
    and "ov = over (h (hd (acc @ [b])))"
  shows "\<exists>U. p = U @ acc \<and> over_linked h (p @ [b]) \<and> \<not> truthy (over (h (hd (p @ [b]))))"
  using walk_over_spec_aux[OF assms(1), of b] assms(2,3) by blast

lemma walk_under_spec_aux:
  assumes "walk_under h0 v0 pl0 = Some p0"
  shows "\<forall>pre acc. pl0 = pre @ acc \<longrightarrow> under_linked h0 acc \<longrightarrow> acc \<noteq> [] \<longrightarrow>
      v0 = first_under (h0 (last acc)) \<longrightarrow>
      (\<exists>D. p0 = pre @ acc @ D \<and> under_linked h0 (acc @ D) \<and>
           first_under (h0 (last (acc @ D))) = None)"
proof (rule walk_under.raw_induct[where P = "\<lambda>h u0 pl p. \<forall>pre acc. pl = pre @ acc \<longrightarrow>
      under_linked h acc \<longrightarrow> acc \<noteq> [] \<longrightarrow> u0 = first_under (h (last acc)) \<longrightarrow>
      (\<exists>D. p = pre @ acc @ D \<and> under_linked h (acc @ D) \<and>
           first_under (h (last (acc @ D))) = None)", OF _ assms])
  fix w h u0 pl p
  assume IH: "\<And>h u0 pl p. w h u0 pl = Some p \<Longrightarrow> \<forall>pre acc. pl = pre @ acc \<longrightarrow>
      under_linked h acc \<longrightarrow> acc \<noteq> [] \<longrightarrow> u0 = first_under (h (last acc)) \<longrightarrow>
      (\<exists>D. p = pre @ acc @ D \<and> under_linked h (acc @ D) \<and>
           first_under (h (last (acc @ D))) = None)"
    and body: "(case u0 of None \<Rightarrow> Some pl
      | Some u \<Rightarrow> w h (first_under (h u)) (pl @ [u])) = Some p"
  show "\<forall>pre acc. pl = pre @ acc \<longrightarrow>
      under_linked h acc \<longrightarrow> acc \<noteq> [] \<longrightarrow> u0 = first_under (h (last acc)) \<longrightarrow>
      (\<exists>D. p = pre @ acc @ D \<and> under_linked h (acc @ D) \<and>
           first_under (h (last (acc @ D))) = None)"
  proof (intro allI impI)
    fix pre acc
    assume pl: "pl = pre @ acc" and lk: "under_linked h acc" and ne: "acc \<noteq> []"
      and u0: "u0 = first_under (h (last acc))"
    show "\<exists>D. p = pre @ acc @ D \<and> under_linked h (acc @ D) \<and>
           first_under (h (last (acc @ D))) = None"
    proof (cases u0)
      case None
      with body have "p = pl" by simp
      with None pl lk u0 show ?thesis by simp
    next
      case (Some u)
      with body have rec: "w h (first_under (h u)) (pl @ [u]) = Some p" by simp
      have lk': "under_linked h (acc @ [u])"
        using lk ne u0 Some by (simp add: under_linked_snoc)
      have "pl @ [u] = pre @ (acc @ [u])" using pl by simp
      moreover have "first_under (h u) = first_under (h (last (acc @ [u])))" by simp
      moreover have "acc @ [u] \<noteq> []" by simp
      ultimately obtain D where "p = pre @ (acc @ [u]) @ D"
        "under_linked h ((acc @ [u]) @ D)" "first_under (h (last ((acc @ [u]) @ D))) = None"
        using IH[OF rec] lk' by blast
      then show ?thesis by (intro exI[of _ "u # D"]) simp
    qed
  qed
qed

lemma walk_under_spec:
  assumes "walk_under h u0 (pre @ acc) = Some p"
    and "under_linked h acc" and "acc \<noteq> []"
    and "u0 = first_under (h (last acc))"
  shows "\<exists>D. p = pre @ acc @ D \<and> under_linked h (acc @ D) \<and> first_under (h (last (acc @ D))) = None"
  using walk_under_spec_aux[OF assms(1)] assms(2-) by blast

lemma bind_oc_Inr:
  "bind_oc m f = Some (Inr v) \<Longrightarrow> \<exists>x. m = Some (Inr x) \<and> f x = Some (Inr v)"
  by (cases m) (auto simp: bind_oc_def split: sum.splits)

lemma trace_pile_walks:
  assumes "trace_pile h b = Some (Inr (P, s))"
  shows "\<exists>up. walk_over h (over (h b)) [] = Some (Inr up) \<and>
           walk_under h (first_under (h b)) (up @ [b]) = Some P \<and> s = length up"
proof (cases "walk_over h (over (h b)) []")
  case None
  with assms show ?thesis by (simp add: trace_pile_def bind_oc_def)
next
  case (Some r)
  show ?thesis
  proof (cases r)
    case (Inl e)
    with Some assms show ?thesis by (simp add: trace_pile_def bind_oc_def)
  next
    case (Inr up)
    show ?thesis
    proof (cases "walk_under h (first_under (h b)) (up @ [b])")
      case None
      with Some Inr assms show ?thesis by (simp add: trace_pile_def bind_oc_def Let_def)
    next
      case (Some P')
      with \<open>walk_over h (over (h b)) [] = Some r\<close> Inr assms show ?thesis
        by (simp add: trace_pile_def bind_oc_def Let_def)
    qed
  qed
qed

lemma trace_pile_spec:
  assumes "trace_pile h b = Some (Inr (P, s))"
  shows "\<exists>U D. P = U @ b # D \<and> s = length U \<and> over_linked h (U @ [b]) \<and>
           \<not> truthy (over (h (hd (U @ [b])))) \<and> under_linked h (b # D) \<and>
           first_under (h (last (b # D))) = None"
proof -
  from trace_pile_walks[OF assms] obtain up where up: "walk_over h (over (h b)) [] = Some (Inr up)"
    and dn: "walk_under h (first_under (h b)) (up @ [b]) = Some P" and s: "s = length up"
    by auto
  have "over_linked h ([] @ [b])" "over (h b) = over (h (hd ([] @ [b])))" by simp_all
  from walk_over_spec[OF up this] have ol: "over_linked h (up @ [b])"
    "\<not> truthy (over (h (hd (up @ [b]))))" by simp_all
  have "under_linked h [b]" "[b] \<noteq> []" "first_under (h b) = first_under (h (last [b]))"
    by simp_all
  from walk_under_spec[OF dn this] obtain D where "P = up @ [b] @ D" "under_linked h ([b] @ D)"
    "first_under (h (last ([b] @ D))) = None" by blast
  with ol s show ?thesis by (intro exI[of _ up] exI[of _ D]) simp
qed


subsection \<open>The property pile\<close>

lemma trace_Inr:
  "trace h b = Some (Inr h') \<longleftrightarrow> (\<exists>P s. trace_pile h b = Some (Inr (P, s)) \<and> h' = store_trace h b P s)"
proof (cases "trace_pile h b")
  case None
  then show ?thesis by (simp add: trace_def bind_oc_def)
next
  case (Some r)
  then show ?thesis by (cases r) (auto simp: trace_def bind_oc_def)
qed

lemma pile_c_store_trace [simp]: "pile_c (store_trace h b P s b) = Some P"
  by (simp add: store_trace_def)

lemma spot_c_store_trace [simp]: "spot_c (store_trace h b P s b) = Some s"
  by (simp add: store_trace_def)

lemma over_store_trace [simp]: "over (store_trace h b P s r) = over (h r)"
  by (simp add: store_trace_def)

lemma unders_store_trace [simp]: "unders (store_trace h b P s r) = unders (h r)"
  by (simp add: store_trace_def)

lemma first_under_store_trace [simp]: "first_under (store_trace h b P s r) = first_under (h r)"
  by (simp add: first_under_def)

lemma pile_cached: "pile_c (h b) = Some P \<Longrightarrow> pile h b = Some (Inr (Some P, h))"
  by (simp add: pile_def)

lemma pile_untraced:
  "pile_c (h b) = None \<Longrightarrow> trace_pile h b = Some (Inr (P, s)) \<Longrightarrow>
   pile h b = Some (Inr (Some P, store_trace h b P s))"
  by (simp add: pile_def trace_def bind_oc_def)

lemma pile_Inr_cases:
  assumes "pile h b = Some (Inr (v, h'))"
  shows "(pile_c (h b) = v \<and> v \<noteq> None \<and> h' = h) \<or>
         (pile_c (h b) = None \<and> (\<exists>P s. trace_pile h b = Some (Inr (P, s)) \<and> v = Some P \<and>
            h' = store_trace h b P s))"
proof (cases "pile_c (h b)")
  case (Some P)
  with assms show ?thesis by (auto simp: pile_def)
next
  case None
  with assms have "bind_oc (trace h b) (\<lambda>h'. Some (Inr (pile_c (h' b), h'))) = Some (Inr (v, h'))"
    by (simp add: pile_def)
  from bind_oc_Inr[OF this] obtain h1 where
    "trace h b = Some (Inr h1) \<and>
     Some (Inr (pile_c (h1 b), h1)) = Some (Inr (v, h') :: error + ref list option \<times> heap)" ..
  then have t: "trace h b = Some (Inr h')" and e: "v = pile_c (h' b)" by auto
  from t obtain P s where ps: "trace_pile h b = Some (Inr (P, s))" "h' = store_trace h b P s"
    unfolding trace_Inr by (elim exE conjE)
  from e ps(2) have "v = Some P" by simp
  with None ps show ?thesis by (intro disjI2 conjI exI[of _ P] exI[of _ s])
qed


lemma pile_again:
  assumes "pile h b = Some (Inr (Some P, h'))"
  shows "pile h' b = Some (Inr (Some P, h'))"
  using pile_Inr_cases[OF assms] by (auto simp: pile_cached)

subsection \<open>The scan of exen\<close>

lemma exen_scan_found:
  assumes "i < l" and "far = N ! i \<or> F ! i \<noteq> N ! i"
    and "\<forall>j. i0 \<le> j \<and> j < i \<longrightarrow> \<not> (far = N ! j \<or> F ! j \<noteq> N ! j)"
    and "i0 \<le> i"
  shows "exen_scan far N F l i0 = Some (rev (drop i N), drop i F, rev (take i N), take i F)"
  using assms
proof (induction "i - i0" arbitrary: i0)
  case 0
  then have "i0 = i" by simp
  with 0 show ?case by (simp add: exen_scan.simps[of far N F l i])
next
  case (Suc k)
  then have lt: "i0 < i" and "k = i - Suc i0" by simp_all
  with Suc have "exen_scan far N F l (Suc i0) =
    Some (rev (drop i N), drop i F, rev (take i N), take i F)" by simp
  moreover from Suc.prems(3) lt have "\<not> (far = N ! i0 \<or> F ! i0 \<noteq> N ! i0)" by simp
  moreover from lt Suc.prems(1) have "i0 < l" by simp
  ultimately show ?case by (simp add: exen_scan.simps[of far N F l i0])
qed

lemma exen_scan_Some:
  assumes "exen_scan far N F l i0 = Some q"
  shows "\<exists>i. i0 \<le> i \<and> i < l \<and> (far = N ! i \<or> F ! i \<noteq> N ! i) \<and>
           (\<forall>j. i0 \<le> j \<and> j < i \<longrightarrow> \<not> (far = N ! j \<or> F ! j \<noteq> N ! j)) \<and>
           q = (rev (drop i N), drop i F, rev (take i N), take i F)"
  using assms
proof (induction far N F l i0 rule: exen_scan.induct)
  case (1 far N F l i0)
  show ?case
  proof (cases "i0 < l \<and> \<not> (far = N ! i0 \<or> F ! i0 \<noteq> N ! i0)")
    case True
    with 1(2) have "exen_scan far N F l (Suc i0) = Some q"
      by (simp add: exen_scan.simps[of far N F l i0])
    with 1(1) True obtain i where i: "Suc i0 \<le> i" "i < l" "far = N ! i \<or> F ! i \<noteq> N ! i"
      "\<forall>j. Suc i0 \<le> j \<and> j < i \<longrightarrow> \<not> (far = N ! j \<or> F ! j \<noteq> N ! j)"
      "q = (rev (drop i N), drop i F, rev (take i N), take i F)" by blast
    have "\<forall>j. i0 \<le> j \<and> j < i \<longrightarrow> \<not> (far = N ! j \<or> F ! j \<noteq> N ! j)"
    proof (intro allI impI)
      fix j assume "i0 \<le> j \<and> j < i"
      then have "j = i0 \<or> (Suc i0 \<le> j \<and> j < i)" by arith
      with True i(4) show "\<not> (far = N ! j \<or> F ! j \<noteq> N ! j)" by blast
    qed
    with i show ?thesis by (intro exI[of _ i]) simp
  next
    case False
    with 1(2) have "i0 < l" "far = N ! i0 \<or> F ! i0 \<noteq> N ! i0"
      "q = (rev (drop i0 N), drop i0 F, rev (take i0 N), take i0 F)"
      by (auto simp: exen_scan.simps[of far N F l i0] split: if_splits)
    then show ?thesis by (intro exI[of _ i0]) simp
  qed
qed

lemma exen_scan_None:
  assumes "\<forall>j. i0 \<le> j \<and> j < l \<longrightarrow> \<not> (far = N ! j \<or> F ! j \<noteq> N ! j)"
  shows "exen_scan far N F l i0 = None"
proof (cases "exen_scan far N F l i0")
  case (Some q)
  from exen_scan_Some[OF Some] assms show ?thesis by blast
qed simp

lemma exen_piles:
  assumes "pile h near = Some (Inr (Some N, h1))" and "pile h1 far = Some (Inr (Some F, h2))"
  shows "exen h near far = Some (Inr (exen_scan far N F (min (length N) (length F)) 0, h2))"
  using assms by (simp add: exen_def bind_oc_def)


subsection \<open>The quadruple that exen returns\<close>

lemmas box_eval = trace_pile_def bind_oc_def walk_over.simps walk_under.simps first_under_def
  Let_def Box_init_def heap0_def store_trace_def

lemmas exen_eval = exen_def pile_def trace_def exen_scan.simps trail_of_def

lemma pile_c_heap_RAXY: "pile_c (heap_RAXY r) = None"
  by (simp add: heap_RAXY_def heap0_def Box_init_def)

lemma trace_pile_RAXY_X: "trace_pile heap_RAXY 2 = Some (Inr ([0, 1, 2], 2))"
  by (simp add: box_eval heap_RAXY_def)

lemma trace_pile_RAXY_Y: "trace_pile (store_trace heap_RAXY 2 [0, 1, 2] 2) 3 = Some (Inr ([0, 1, 3], 2))"
  by (simp add: box_eval heap_RAXY_def)

lemma pile_RAXY_X:
  "pile heap_RAXY 2 = Some (Inr (Some [0, 1, 2], store_trace heap_RAXY 2 [0, 1, 2] 2))"
  by (rule pile_untraced[OF pile_c_heap_RAXY trace_pile_RAXY_X])

lemma pile_RAXY_Y:
  "pile (store_trace heap_RAXY 2 [0, 1, 2] 2) 3 =
   Some (Inr (Some [0, 1, 3], store_trace (store_trace heap_RAXY 2 [0, 1, 2] 2) 3 [0, 1, 3] 2))"
proof (rule pile_untraced[OF _ trace_pile_RAXY_Y])
  show "pile_c (store_trace heap_RAXY 2 [0, 1, 2] 2 3) = None"
    by (simp add: store_trace_def pile_c_heap_RAXY)
qed

lemma exen_RAXY: "map_option (map_sum id fst) (exen heap_RAXY 2 3) = Some (Inr (Some ([2], [3], [1, 0], [0, 1])))"
  by (simp add: box_eval exen_eval heap_RAXY_def)

lemma exen_PQRS: "map_option (map_sum id fst) (exen heap_PQRS 1 3) = Some (Inr (Some ([1, 0], [2, 3], [], [])))"
  by (simp add: box_eval exen_eval heap_PQRS_def)

text \<open>
  Claim C1. Let near.pile return N and far.pile return F, and let i be the smallest index
  below the length of both with far is N[i] or F[i] is not N[i]. Then exen(near, far) returns
  exits = reversed(N[i:]), enters = F[i:], rexits = reversed(N[:i]), renters = F[:i].
  For near = X with pile [R, A, X] and far = Y with pile [R, A, Y] it returns
  ([X], [Y], [A, R], [R, A]); for near = Q with pile [P, Q] and far = S with pile [R, S] of
  another tree it returns ([Q, P], [R, S], [], []).
\<close>

theorem exen_quadruple:
  "(\<forall>h near far N F h1 h2 i.
      pile h near = Some (Inr (Some N, h1)) \<longrightarrow>
      pile h1 far = Some (Inr (Some F, h2)) \<longrightarrow>
      i < min (length N) (length F) \<longrightarrow>
      (far = N ! i \<or> F ! i \<noteq> N ! i) \<longrightarrow>
      (\<forall>j<i. \<not> (far = N ! j \<or> F ! j \<noteq> N ! j)) \<longrightarrow>
      exen h near far =
        Some (Inr (Some (rev (drop i N), drop i F, rev (take i N), take i F), h2)))
   \<and> map_option (map_sum id fst) (exen heap_RAXY 2 3) = Some (Inr (Some ([2], [3], [1, 0], [0, 1])))
   \<and> map_option (map_sum id fst) (exen heap_PQRS 1 3) = Some (Inr (Some ([1, 0], [2, 3], [], [])))"
proof (intro conjI allI impI)
  fix h near far N F h1 h2 and i :: nat
  assume pn: "pile h near = Some (Inr (Some N, h1))" and pf: "pile h1 far = Some (Inr (Some F, h2))"
    and i: "i < min (length N) (length F)" and c: "far = N ! i \<or> F ! i \<noteq> N ! i"
    and m: "\<forall>j<i. \<not> (far = N ! j \<or> F ! j \<noteq> N ! j)"
  from m have "\<forall>j. 0 \<le> j \<and> j < i \<longrightarrow> \<not> (far = N ! j \<or> F ! j \<noteq> N ! j)" by simp
  from exen_scan_found[OF i c this] have
    "exen_scan far N F (min (length N) (length F)) 0 =
       Some (rev (drop i N), drop i F, rev (take i N), take i F)" by simp
  with exen_piles[OF pn pf] show "exen h near far =
        Some (Inr (Some (rev (drop i N), drop i F, rev (take i N), take i F), h2))" by simp
next
  show "map_option (map_sum id fst) (exen heap_RAXY 2 3) = Some (Inr (Some ([2], [3], [1, 0], [0, 1])))"
    by (rule exen_RAXY)
next
  show "map_option (map_sum id fst) (exen heap_PQRS 1 3) = Some (Inr (Some ([1, 0], [2, 3], [], [])))"
    by (rule exen_PQRS)
qed

text \<open>The hypotheses of C1 hold for near = X and far = Y, with i = 2.\<close>

theorem exen_quadruple_witness:
  "pile heap_RAXY 2 = Some (Inr (Some [0, 1, 2], store_trace heap_RAXY 2 [0, 1, 2] 2)) \<and>
   pile (store_trace heap_RAXY 2 [0, 1, 2] 2) 3 =
     Some (Inr (Some [0, 1, 3], store_trace (store_trace heap_RAXY 2 [0, 1, 2] 2) 3 [0, 1, 3] 2)) \<and>
   (2::nat) < min (length [0, 1, 2 :: nat]) (length [0, 1, 3 :: nat]) \<and>
   ((3::nat) = [0, 1, 2] ! 2 \<or> [0, 1, 3] ! 2 \<noteq> [0, 1, 2 :: nat] ! 2) \<and>
   \<not> ((3::nat) = [0, 1, 2] ! 0 \<or> [0, 1, 3] ! 0 \<noteq> [0, 1, 2 :: nat] ! 0) \<and>
   \<not> ((3::nat) = [0, 1, 2] ! 1 \<or> [0, 1, 3] ! 1 \<noteq> [0, 1, 2 :: nat] ! 1) \<and>
   exen heap_RAXY 2 3 =
     Some (Inr (Some ([2], [3], [1, 0], [0, 1]),
                store_trace (store_trace heap_RAXY 2 [0, 1, 2] 2) 3 [0, 1, 3] 2))"
proof -
  have a: "(2::nat) < min (length [0, 1, 2 :: nat]) (length [0, 1, 3 :: nat])" by simp
  have b: "(3::nat) = [0, 1, 2] ! 2 \<or> [0, 1, 3] ! 2 \<noteq> [0, 1, 2 :: nat] ! 2" by simp
  have c: "\<forall>j<2. \<not> ((3::nat) = [0, 1, 2] ! j \<or> [0, 1, 3] ! j \<noteq> [0, 1, 2 :: nat] ! j)"
    by (simp add: less_Suc_eq numeral_2_eq_2)
  from exen_quadruple have "exen heap_RAXY 2 3 =
     Some (Inr (Some (rev (drop 2 [0, 1, 2]), drop 2 [0, 1, 3], rev (take 2 [0, 1, 2]),
                      take 2 [0, 1, 3]),
                store_trace (store_trace heap_RAXY 2 [0, 1, 2] 2) 3 [0, 1, 3] 2))"
    using pile_RAXY_X pile_RAXY_Y a b c by blast
  then have "exen heap_RAXY 2 3 =
     Some (Inr (Some ([2], [3], [1, 0], [0, 1]),
                store_trace (store_trace heap_RAXY 2 [0, 1, 2] 2) 3 [0, 1, 3] 2))" by simp
  with pile_RAXY_X pile_RAXY_Y a b show ?thesis by simp
qed


subsection \<open>Forced reentry in a single pile\<close>

lemma pile_c_heap_ABC: "pile_c (heap_ABC r) = None"
  by (simp add: heap_ABC_def heap0_def Box_init_def)

lemma trace_pile_ABC_C: "trace_pile heap_ABC 2 = Some (Inr ([0, 1, 2], 2))"
  by (simp add: box_eval heap_ABC_def)

lemma trace_pile_ABC_A: "trace_pile heap_ABC 0 = Some (Inr ([0, 1, 2], 0))"
  by (simp add: box_eval heap_ABC_def)

lemma trail_ABC_C: "trail_of heap_ABC 2 [0, 1, 2] 2 = ''A<B<C>''"
  by (simp add: trail_of_def heap_ABC_def heap0_def Box_init_def)

lemma pile_ABC_C:
  "pile heap_ABC 2 = Some (Inr (Some [0, 1, 2], store_trace heap_ABC 2 [0, 1, 2] 2))"
  by (rule pile_untraced[OF pile_c_heap_ABC trace_pile_ABC_C])

lemma pile_ABC_A:
  "pile heap_ABC 0 = Some (Inr (Some [0, 1, 2], store_trace heap_ABC 0 [0, 1, 2] 0))"
  by (rule pile_untraced[OF pile_c_heap_ABC trace_pile_ABC_A])

lemma exen_ABC_C:
  "map_option (map_sum id fst) (exen heap_ABC 2 2) = Some (Inr (Some ([2], [2], [1, 0], [0, 1])))"
  by (simp add: box_eval exen_eval heap_ABC_def)

text \<open>
  Claim C3, as stated, fails: in the pile A (0) over B (1) over C (2), exen(C, C) returns
  exits = [C], enters = [C], rexits = [B, A], renters = [A, B], and not
  ([C, B, A], [A, B, C], [], []).
\<close>

theorem exen_bottom_counterexample:
  "map_option (map_sum id fst) (exen heap_ABC 2 2) = Some (Inr (Some ([2], [2], [1, 0], [0, 1]))) \<and>
   map_option (map_sum id fst) (exen heap_ABC 2 2) \<noteq> Some (Inr (Some ([2, 1, 0], [0, 1, 2], [], [])))"
  by (simp add: exen_ABC_C)

text \<open>
  Claim C3, amended. In a pile of three boxes [A, B, C], the forced reentry
  exen(near, far) with near = far = C, the bottom box, returns exits = [C], enters = [C],
  rexits = [B, A], renters = [A, B]: the boxes above far are re-exited and re-entered. The
  result exits = [C, B, A], enters = [A, B, C], rexits = renters = [] is the one of
  near = far = A, the top box.
\<close>

theorem exen_forced_reentry:
  assumes "pile h x = Some (Inr (Some [a, b, c], h'))" and "a \<noteq> c" and "b \<noteq> c"
  shows "(x = c \<longrightarrow> exen h x x = Some (Inr (Some ([c], [c], [b, a], [a, b]), h'))) \<and>
         (x = a \<longrightarrow> exen h x x = Some (Inr (Some ([c, b, a], [a, b, c], [], []), h')))"
proof -
  note ex = exen_piles[OF assms(1) pile_again[OF assms(1)]]
  have bottom: "exen_scan c [a, b, c] [a, b, c] (min (length [a, b, c]) (length [a, b, c])) 0 =
    Some (rev (drop 2 [a, b, c]), drop 2 [a, b, c], rev (take 2 [a, b, c]), take 2 [a, b, c])"
    using assms(2,3) by (intro exen_scan_found) (auto simp: less_Suc_eq nth_Cons')
  have top: "exen_scan a [a, b, c] [a, b, c] (min (length [a, b, c]) (length [a, b, c])) 0 =
    Some (rev (drop 0 [a, b, c]), drop 0 [a, b, c], rev (take 0 [a, b, c]), take 0 [a, b, c])"
    by (intro exen_scan_found) auto
  from ex bottom top show ?thesis by auto
qed

text \<open>The pile A over B over C, at its bottom box and at its top box.\<close>

theorem exen_forced_reentry_witness:
  "pile heap_ABC 2 = Some (Inr (Some [0, 1, 2], store_trace heap_ABC 2 [0, 1, 2] 2)) \<and>
   (0::nat) \<noteq> 2 \<and> (1::nat) \<noteq> 2 \<and>
   exen heap_ABC 2 2 =
     Some (Inr (Some ([2], [2], [1, 0], [0, 1]), store_trace heap_ABC 2 [0, 1, 2] 2)) \<and>
   pile heap_ABC 0 = Some (Inr (Some [0, 1, 2], store_trace heap_ABC 0 [0, 1, 2] 0)) \<and>
   exen heap_ABC 0 0 =
     Some (Inr (Some ([2, 1, 0], [0, 1, 2], [], []), store_trace heap_ABC 0 [0, 1, 2] 0))"
  using exen_forced_reentry[OF pile_ABC_C] exen_forced_reentry[OF pile_ABC_A]
    pile_ABC_C pile_ABC_A by simp


subsection \<open>The shape of a traced pile\<close>

lemma trace_pile_nth:
  assumes "trace_pile h b = Some (Inr (P, s))"
  shows "s < length P" and "P ! s = b"
    and "\<forall>i<s. over (h (P ! Suc i)) = LBox (P ! i)"
    and "\<forall>i. s < i \<and> i < length P \<longrightarrow> first_under (h (P ! (i - 1))) = Some (P ! i)"
    and "\<not> truthy (over (h (P ! 0)))"
    and "first_under (h (last P)) = None"
proof -
  from trace_pile_spec[OF assms] obtain U D where P: "P = U @ b # D" and s: "s = length U"
    and ol: "over_linked h (U @ [b])" and top: "\<not> truthy (over (h (hd (U @ [b]))))"
    and ul: "under_linked h (b # D)" and bot: "first_under (h (last (b # D))) = None"
    by blast
  show "s < length P" using P s by simp
  show "P ! s = b" using P s by simp
  show "\<forall>i<s. over (h (P ! Suc i)) = LBox (P ! i)"
  proof (intro allI impI)
    fix i assume i: "i < s"
    then have "Suc i < length (U @ [b])" using s by simp
    from over_linked_nth[OF ol this] have "over (h ((U @ [b]) ! Suc i)) = LBox ((U @ [b]) ! i)" .
    moreover have "(U @ [b]) ! Suc i = P ! Suc i" using i s P by (simp add: nth_append)
    moreover have "(U @ [b]) ! i = P ! i" using i s P by (simp add: nth_append)
    ultimately show "over (h (P ! Suc i)) = LBox (P ! i)" by simp
  qed
  show "\<forall>i. s < i \<and> i < length P \<longrightarrow> first_under (h (P ! (i - 1))) = Some (P ! i)"
  proof (intro allI impI)
    fix i assume i: "s < i \<and> i < length P"
    then obtain k where k: "i = Suc (s + k)" by (metis less_iff_Suc_add)
    with i P s have "Suc k < length (b # D)" by simp
    from under_linked_nth[OF ul this] have "first_under (h ((b # D) ! k)) = Some ((b # D) ! Suc k)" .
    moreover have "P ! (i - 1) = (b # D) ! k" using k P s by (simp add: nth_append)
    moreover have "P ! i = (b # D) ! Suc k" using k P s by (simp add: nth_append)
    ultimately show "first_under (h (P ! (i - 1))) = Some (P ! i)" by simp
  qed
  show "\<not> truthy (over (h (P ! 0)))"
    using top P by (cases U) simp_all
  show "first_under (h (last P)) = None"
    using bot P by simp
qed







subsection \<open>Links and caches under a trace\<close>


lemma unders_ok_store_trace [simp]: "unders_ok (store_trace h b P s) = unders_ok h"
  by (simp add: unders_ok_def)

lemma overs_ok_store_trace [simp]: "overs_ok (store_trace h b P s) = overs_ok h"
  by (simp add: overs_ok_def)

lemma trace_of_pile:
  "trace_pile h b = Some (Inr (P, s)) \<Longrightarrow> trace h b = Some (Inr (store_trace h b P s))"
  by (simp add: trace_def bind_oc_def)

lemma unders_ok_RAXY: "unders_ok heap_RAXY"
  by (simp add: unders_ok_def heap_RAXY_def heap0_def Box_init_def first_under_def)

lemma overs_ok_RAXY: "overs_ok heap_RAXY"
  by (simp add: overs_ok_def heap_RAXY_def heap0_def Box_init_def)


subsection \<open>The partition of the two piles\<close>





subsection \<open>The scan of exen finds an index\<close>

lemma pile_c_heap_AB: "pile_c (heap_AB r) = None"
  by (simp add: heap_AB_def heap0_def Box_init_def)

lemma trace_pile_AB_A: "trace_pile heap_AB 0 = Some (Inr ([0], 0))"
  by (simp add: box_eval heap_AB_def)

lemma trace_pile_AB_B: "trace_pile heap_AB 1 = Some (Inr ([0, 1], 1))"
  by (simp add: box_eval heap_AB_def)

lemma trace_pile_AB_B_after: "trace_pile (store_trace heap_AB 0 [0] 0) 1 = Some (Inr ([0, 1], 1))"
  by (simp add: box_eval heap_AB_def)

lemma pile_AB_A: "pile heap_AB 0 = Some (Inr (Some [0], store_trace heap_AB 0 [0] 0))"
  by (rule pile_untraced[OF pile_c_heap_AB trace_pile_AB_A])

lemma pile_AB_B:
  "pile (store_trace heap_AB 0 [0] 0) 1 =
   Some (Inr (Some [0, 1], store_trace (store_trace heap_AB 0 [0] 0) 1 [0, 1] 1))"
proof (rule pile_untraced[OF _ trace_pile_AB_B_after])
  show "pile_c (store_trace heap_AB 0 [0] 0 1) = None"
    by (simp add: store_trace_def pile_c_heap_AB)
qed

lemma exen_AB:
  "exen heap_AB 0 1 = Some (Inr (None, store_trace (store_trace heap_AB 0 [0] 0) 1 [0, 1] 1))"
  using exen_piles[OF pile_AB_A pile_AB_B] by (simp add: exen_scan.simps)

text \<open>
  Claim C10, as stated, fails. After \<^verbatim>\<open>A = Box(name='A'); B = Box(name='B', over=A)\<close>
  (A is 0, B is 1) the list \<^verbatim>\<open>A.unders\<close> is empty: the pile of A is [A], the pile of B is
  [A, B], both traced from the links, each with its box, each without a repeat; and
  exen(A, B) falls out of the loop and returns None.
\<close>

theorem exen_total_counterexample:
  "pile heap_AB 0 = Some (Inr (Some [0], store_trace heap_AB 0 [0] 0)) \<and>
   pile (store_trace heap_AB 0 [0] 0) 1 =
     Some (Inr (Some [0, 1], store_trace (store_trace heap_AB 0 [0] 0) 1 [0, 1] 1)) \<and>
   trace_pile heap_AB 0 = Some (Inr ([0], 0)) \<and>
   trace_pile heap_AB 1 = Some (Inr ([0, 1], 1)) \<and>
   (0::nat) \<in> set [0] \<and> (1::nat) \<in> set [0, 1] \<and> distinct [0::nat] \<and> distinct [0, 1 :: nat] \<and>
   exen heap_AB 0 1 = Some (Inr (None, store_trace (store_trace heap_AB 0 [0] 0) 1 [0, 1] 1))"
  using pile_AB_A pile_AB_B trace_pile_AB_A trace_pile_AB_B exen_AB by simp

text \<open>
  Claim C10, amended. Let near.pile return N and far.pile return F, the piles that a trace
  of near and of far computes from the present links, and let every box whose over is a box
  p be listed in \<^verbatim>\<open>p.unders\<close>, as \<^verbatim>\<open>Boxer.bx\<close> keeps it. Then the scan of exen finds
  an index i below min(len(N), len(F)) and exen returns the quadruple of that index, never
  None; when the tops of the piles differ, as for two trees, that index is 0 and exen returns
  (reversed(N), F, [], []).
\<close>

theorem exen_total:
  assumes "pile h near = Some (Inr (Some N, h1))" and "pile h1 far = Some (Inr (Some F, h2))"
    and "trace_pile h near = Some (Inr (N, sn))" and "trace_pile h far = Some (Inr (F, sf))"
    and "overs_ok h"
  shows "(\<exists>i. i < min (length N) (length F) \<and> (far = N ! i \<or> F ! i \<noteq> N ! i) \<and>
            exen h near far =
              Some (Inr (Some (rev (drop i N), drop i F, rev (take i N), take i F), h2))) \<and>
         (F ! 0 \<noteq> N ! 0 \<longrightarrow> exen h near far = Some (Inr (Some (rev N, F, [], []), h2)))"
proof -
  let ?l = "min (length N) (length F)"
  note n = trace_pile_nth[OF assms(3)] and f = trace_pile_nth[OF assms(4)]
  note ex = exen_piles[OF assms(1,2)]
  have first: "\<exists>i. i < ?l \<and> (far = N ! i \<or> F ! i \<noteq> N ! i)"
  proof (rule ccontr)
    assume "\<not> (\<exists>i. i < ?l \<and> (far = N ! i \<or> F ! i \<noteq> N ! i))"
    then have all: "\<forall>i<?l. far \<noteq> N ! i \<and> F ! i = N ! i" by blast
    have "\<not> sf < ?l"
    proof
      assume "sf < ?l"
      with all have "far \<noteq> N ! sf" "F ! sf = N ! sf" by simp_all
      with f(2) show False by simp
    qed
    with f(1) have len: "length N \<le> sf" "length N < length F" by simp_all
    from n(1) obtain k where k: "length N = Suc k" by (cases "length N") simp_all
    with len have "k < sf" by simp
    with f(3) have "over (h (F ! Suc k)) = LBox (F ! k)" by simp
    with assms(5) have "F ! Suc k \<in> set (unders (h (F ! k)))" by (simp add: overs_ok_def)
    then have "first_under (h (F ! k)) \<noteq> None"
      by (cases "unders (h (F ! k))") (simp_all add: first_under_def)
    moreover from k len all have "F ! k = N ! k" by simp
    moreover from k have "N ! k = last N" by (metis diff_Suc_1 last_conv_nth length_0_conv nat.simps(3))
    ultimately show False using n(6) by simp
  qed
  have total: "\<exists>i. i < ?l \<and> (far = N ! i \<or> F ! i \<noteq> N ! i) \<and>
            exen h near far =
              Some (Inr (Some (rev (drop i N), drop i F, rev (take i N), take i F), h2))"
  proof -
    have "exen_scan far N F ?l 0 \<noteq> None"
    proof
      assume "exen_scan far N F ?l 0 = None"
      moreover from first obtain i where i: "i < ?l" "far = N ! i \<or> F ! i \<noteq> N ! i" by blast
      define m where "m = (LEAST j. far = N ! j \<or> F ! j \<noteq> N ! j)"
      from i(2) have mc: "far = N ! m \<or> F ! m \<noteq> N ! m" unfolding m_def by (rule LeastI)
      from i(2) have "m \<le> i" unfolding m_def by (rule Least_le)
      with i(1) have ml: "m < ?l" by simp
      have "\<forall>j. 0 \<le> j \<and> j < m \<longrightarrow> \<not> (far = N ! j \<or> F ! j \<noteq> N ! j)"
        unfolding m_def using not_less_Least by blast
      from exen_scan_found[OF ml mc this] have "exen_scan far N F ?l 0 \<noteq> None" by simp
      ultimately show False by simp
    qed
    then obtain q where q: "exen_scan far N F ?l 0 = Some q" by blast
    from exen_scan_Some[OF q] obtain i where "i < ?l" "far = N ! i \<or> F ! i \<noteq> N ! i"
      "q = (rev (drop i N), drop i F, rev (take i N), take i F)" by blast
    with ex q show ?thesis by (intro exI[of _ i]) simp
  qed
  have "F ! 0 \<noteq> N ! 0 \<longrightarrow> exen h near far = Some (Inr (Some (rev N, F, [], []), h2))"
  proof
    assume d: "F ! 0 \<noteq> N ! 0"
    from n(1) f(1) have "0 < ?l" by auto
    moreover from d have "far = N ! 0 \<or> F ! 0 \<noteq> N ! 0" by simp
    moreover have "\<forall>j. 0 \<le> j \<and> j < (0::nat) \<longrightarrow> \<not> (far = N ! j \<or> F ! j \<noteq> N ! j)" by simp
    ultimately have "exen_scan far N F ?l 0 =
      Some (rev (drop 0 N), drop 0 F, rev (take 0 N), take 0 F)"
      by (intro exen_scan_found) simp_all
    with ex show "exen h near far = Some (Inr (Some (rev N, F, [], []), h2))" by simp
  qed
  with total show ?thesis by blast
qed


lemma pile_c_heap_PQRS: "pile_c (heap_PQRS r) = None"
  by (simp add: heap_PQRS_def heap0_def Box_init_def)

lemma overs_ok_PQRS: "overs_ok heap_PQRS"
  by (simp add: overs_ok_def heap_PQRS_def heap0_def Box_init_def)

lemma trace_pile_PQRS_Q: "trace_pile heap_PQRS 1 = Some (Inr ([0, 1], 1))"
  by (simp add: box_eval heap_PQRS_def)

lemma trace_pile_PQRS_S: "trace_pile heap_PQRS 3 = Some (Inr ([2, 3], 1))"
  by (simp add: box_eval heap_PQRS_def)

lemma trace_pile_PQRS_S_after: "trace_pile (store_trace heap_PQRS 1 [0, 1] 1) 3 = Some (Inr ([2, 3], 1))"
  by (simp add: box_eval heap_PQRS_def)

lemma pile_PQRS_Q: "pile heap_PQRS 1 = Some (Inr (Some [0, 1], store_trace heap_PQRS 1 [0, 1] 1))"
  by (rule pile_untraced[OF pile_c_heap_PQRS trace_pile_PQRS_Q])

lemma pile_PQRS_S:
  "pile (store_trace heap_PQRS 1 [0, 1] 1) 3 =
   Some (Inr (Some [2, 3], store_trace (store_trace heap_PQRS 1 [0, 1] 1) 3 [2, 3] 1))"
proof (rule pile_untraced[OF _ trace_pile_PQRS_S_after])
  show "pile_c (store_trace heap_PQRS 1 [0, 1] 1 3) = None"
    by (simp add: store_trace_def pile_c_heap_PQRS)
qed

text \<open>The two trees P over Q and R over S: near = Q, far = S.\<close>

theorem exen_total_witness:
  "pile heap_PQRS 1 = Some (Inr (Some [0, 1], store_trace heap_PQRS 1 [0, 1] 1)) \<and>
   pile (store_trace heap_PQRS 1 [0, 1] 1) 3 =
     Some (Inr (Some [2, 3], store_trace (store_trace heap_PQRS 1 [0, 1] 1) 3 [2, 3] 1)) \<and>
   trace_pile heap_PQRS 1 = Some (Inr ([0, 1], 1)) \<and>
   trace_pile heap_PQRS 3 = Some (Inr ([2, 3], 1)) \<and>
   overs_ok heap_PQRS \<and> [2, 3] ! 0 \<noteq> [0, 1 :: nat] ! 0 \<and>
   exen heap_PQRS 1 3 =
     Some (Inr (Some ([1, 0], [2, 3], [], []),
                store_trace (store_trace heap_PQRS 1 [0, 1] 1) 3 [2, 3] 1))"
proof -
  have d: "[2, 3] ! 0 \<noteq> [0, 1 :: nat] ! 0" by simp
  from exen_total[OF pile_PQRS_Q pile_PQRS_S trace_pile_PQRS_Q trace_pile_PQRS_S overs_ok_PQRS] d
  have "exen heap_PQRS 1 3 =
     Some (Inr (Some (rev [0, 1], [2, 3], [], []),
                store_trace (store_trace heap_PQRS 1 [0, 1] 1) 3 [2, 3] 1))" by blast
  then have "exen heap_PQRS 1 3 =
     Some (Inr (Some ([1, 0], [2, 3], [], []),
                store_trace (store_trace heap_PQRS 1 [0, 1] 1) 3 [2, 3] 1))" by simp
  with pile_PQRS_Q pile_PQRS_S trace_pile_PQRS_Q trace_pile_PQRS_S overs_ok_PQRS d
  show ?thesis by blast
qed

subsection \<open>The cached pile and the links\<close>

lemma trace_pile_AB_under:
  "trace_pile (set_unders (store_trace heap_AB 0 [0] 0) 0 [1]) 0 = Some (Inr ([0, 1], 0))"
  by (simp add: box_eval set_unders_def heap_AB_def)

lemma trace_AB_A: "trace heap_AB 0 = Some (Inr (store_trace heap_AB 0 [0] 0))"
  by (rule trace_of_pile[OF trace_pile_AB_A])

lemma pile_set_unders_AB:
  "pile (set_unders (store_trace heap_AB 0 [0] 0) 0 [1]) 0 =
   Some (Inr (Some [0], set_unders (store_trace heap_AB 0 [0] 0) 0 [1]))"
  by (rule pile_cached) (simp add: set_unders_def store_trace_def)

text \<open>
  Claim C8, as stated, fails. After \<^verbatim>\<open>A = Box(name='A'); B = Box(name='B', over=A)\<close> and
  a trace of A, which caches the pile [A], the mutation \<^verbatim>\<open>A.unders.append(B)\<close> leaves the
  cache: \<^verbatim>\<open>A.pile\<close> still returns [A], where a trace of the new links gives [A, B].
\<close>

theorem pile_cache_counterexample:
  "trace heap_AB 0 = Some (Inr (store_trace heap_AB 0 [0] 0)) \<and>
   pile (set_unders (store_trace heap_AB 0 [0] 0) 0 [1]) 0 =
     Some (Inr (Some [0], set_unders (store_trace heap_AB 0 [0] 0) 0 [1])) \<and>
   trace_pile (set_unders (store_trace heap_AB 0 [0] 0) 0 [1]) 0 = Some (Inr ([0, 1], 0)) \<and>
   [0] \<noteq> [0, 1 :: nat]"
  using trace_AB_A pile_set_unders_AB trace_pile_AB_under by simp

text \<open>
  Claim C8, amended. Once the pile of a box is cached, an assignment to the over or to the
  unders of any box leaves the cache as it is: the property pile returns the cached pile and
  changes nothing. The cache is renewed by a call of \<^verbatim>\<open>_trace()\<close> only, after which the
  property pile returns the pile traced from the present links.
\<close>

theorem pile_cache_kept:
  "(pile_c (h b) = Some p \<longrightarrow>
      pile (set_over h r v) b = Some (Inr (Some p, set_over h r v)) \<and>
      pile (set_unders h r us) b = Some (Inr (Some p, set_unders h r us))) \<and>
   (trace h b = Some (Inr h') \<longrightarrow>
      (\<exists>P s. trace_pile h b = Some (Inr (P, s)) \<and> pile h' b = Some (Inr (Some P, h'))))"
proof (intro conjI impI)
  assume c: "pile_c (h b) = Some p"
  then have "pile_c (set_over h r v b) = Some p" by (auto simp: set_over_def)
  then show "pile (set_over h r v) b = Some (Inr (Some p, set_over h r v))" by (rule pile_cached)
  from c have "pile_c (set_unders h r us b) = Some p" by (auto simp: set_unders_def)
  then show "pile (set_unders h r us) b = Some (Inr (Some p, set_unders h r us))"
    by (rule pile_cached)
next
  assume "trace h b = Some (Inr h')"
  then obtain P s where tp: "trace_pile h b = Some (Inr (P, s))"
    and h': "h' = store_trace h b P s" unfolding trace_Inr by (elim exE conjE)
  from h' have "pile h' b = Some (Inr (Some P, h'))" by (simp add: pile_cached)
  with tp show "\<exists>P s. trace_pile h b = Some (Inr (P, s)) \<and> pile h' b = Some (Inr (Some P, h'))"
    by blast
qed

text \<open>The box A with the cached pile [A]: B is appended to its unders, then A is traced again.\<close>

theorem pile_cache_kept_witness:
  "pile_c (store_trace heap_AB 0 [0] 0 0) = Some [0] \<and>
   pile (set_unders (store_trace heap_AB 0 [0] 0) 0 [1]) 0 =
     Some (Inr (Some [0], set_unders (store_trace heap_AB 0 [0] 0) 0 [1])) \<and>
   pile (set_over (store_trace heap_AB 0 [0] 0) 1 LNone) 0 =
     Some (Inr (Some [0], set_over (store_trace heap_AB 0 [0] 0) 1 LNone)) \<and>
   trace (set_unders (store_trace heap_AB 0 [0] 0) 0 [1]) 0 =
     Some (Inr (store_trace (set_unders (store_trace heap_AB 0 [0] 0) 0 [1]) 0 [0, 1] 0)) \<and>
   pile (store_trace (set_unders (store_trace heap_AB 0 [0] 0) 0 [1]) 0 [0, 1] 0) 0 =
     Some (Inr (Some [0, 1], store_trace (set_unders (store_trace heap_AB 0 [0] 0) 0 [1]) 0 [0, 1] 0))"
proof -
  let ?H = "store_trace heap_AB 0 [0] 0"
  let ?M = "set_unders ?H 0 [1]"
  let ?T = "store_trace ?M 0 [0, 1] 0"
  have c: "pile_c (?H 0) = Some [0]" by simp
  have t: "trace ?M 0 = Some (Inr ?T)" by (rule trace_of_pile[OF trace_pile_AB_under])
  from pile_cache_kept[where h = ?H and b = 0 and p = "[0]" and r = 1 and v = LNone] c
  have k1: "pile (set_over ?H 1 LNone) 0 = Some (Inr (Some [0], set_over ?H 1 LNone))" by blast
  from pile_cache_kept[where h = ?H and b = 0 and p = "[0]" and r = 0 and us = "[1]"] c
  have k2: "pile ?M 0 = Some (Inr (Some [0], ?M))" by blast
  note k = k1 k2
  from pile_cache_kept[where h = ?M and b = 0 and h' = ?T] t obtain P s where
    "trace_pile ?M 0 = Some (Inr (P, s))" "pile ?T 0 = Some (Inr (Some P, ?T))" by blast
  with trace_pile_AB_under have "pile ?T 0 = Some (Inr (Some [0, 1], ?T))" by simp
  with c k t show ?thesis by blast
qed


section \<open>Box works made by the constructor and the builder\<close>

subsection \<open>The writes of the builder keep the links consistent\<close>


lemma over_linked_cong:
  "\<forall>x \<in> set P. over (h' x) = over (h x) \<Longrightarrow> over_linked h' P = over_linked h P"
  by (induction h P rule: over_linked.induct) simp_all

lemma over_linked_store_trace [simp]: "over_linked (store_trace h b P s) xs = over_linked h xs"
  by (rule over_linked_cong) simp









subsection \<open>Every step keeps the box work well formed\<close>










subsection \<open>A box work of three boxes\<close>













subsection \<open>Pile integrity\<close>




subsection \<open>The partition in a box work\<close>




section \<open>The verbs of the boxer\<close>

subsection \<open>resolve\<close>

lemma resolve_items_links:
  "resolve_items bxs items ovl h = Inr h' \<Longrightarrow> over (h' r) = over (h r) \<and> unders (h' r) = unders (h r)"
proof (induction bxs items ovl h rule: resolve_items.induct)
  case (1 bxs ovl h)
  then show ?case by simp
next
  case (2 bxs nm b rest ovl h)
  show ?case
  proof (cases "is_str (over (h b))")
    case True
    with 2(2) show ?thesis by (cases ovl) simp_all
  next
    case False
    show ?thesis
    proof (cases "resolve_tracts bxs (next_c (h b)) (tracts (h b))")
      case (Inl e)
      with False 2(2) show ?thesis by simp
    next
      case (Inr ts)
      with False 2(2) have "resolve_items bxs rest ovl (h(b := (h b)\<lparr>tracts := ts\<rparr>)) = Inr h'"
        by simp
      from 2(1)[OF False Inr this] show ?thesis by (simp split: if_splits)
    qed
  qed
qed

lemma resolve_items_no_str:
  "resolve_items bxs items ovl h = Inr h' \<Longrightarrow> (nm, b) \<in> set items \<Longrightarrow> \<not> is_str (over (h b))"
proof (induction bxs items ovl h rule: resolve_items.induct)
  case (1 bxs ovl h)
  then show ?case by simp
next
  case (2 bxs nm' b' rest ovl h)
  have ns: "\<not> is_str (over (h b'))"
  proof
    assume "is_str (over (h b'))"
    with 2(2) show False by (cases ovl) simp_all
  qed
  show ?case
  proof (cases "resolve_tracts bxs (next_c (h b')) (tracts (h b'))")
    case (Inl e)
    with ns 2(2) show ?thesis by simp
  next
    case (Inr ts)
    with ns 2(2) have r: "resolve_items bxs rest ovl (h(b' := (h b')\<lparr>tracts := ts\<rparr>)) = Inr h'"
      by simp
    from 2(3) have "(nm, b) = (nm', b') \<or> (nm, b) \<in> set rest" by simp
    then show ?thesis
    proof
      assume "(nm, b) = (nm', b')"
      with ns show ?thesis by simp
    next
      assume "(nm, b) \<in> set rest"
      from 2(1)[OF ns Inr r this] show ?thesis by (simp split: if_splits)
    qed
  qed
qed

text \<open>
  Claim C5 is not what the code does. For \<^verbatim>\<open>boxes = {'a': Box(name='a', over='b'),
  'b': Box(name='b')}\<close> resolve raises UnboundLocalError, where the claim has a.over set to the
  box b and a appended to b.unders; for \<^verbatim>\<open>over='zz'\<close>, no key of boxes, it raises
  UnboundLocalError as well, where the claim has a HierError.
\<close>

theorem resolve_over_unbound:
  "resolve boxes_ab heap_ab = Inl UnboundLocalError \<and>
   resolve boxes_ab heap_azz = Inl UnboundLocalError"
  by (simp add: resolve_def boxes_ab_def heap_ab_def heap_azz_def heap0_def Box_init_def)

subsection \<open>do\<close>

lemma do_heap:
  "do bxs h m deed = Some (Inr (d, m', h')) \<Longrightarrow> h' = h"
  by (auto simp: do_def split: option.splits if_splits)

lemma str_int_1: "str_int 1 = ''1''"
  by (simp add: str_int_def str_nat.simps digit_char_def)

text \<open>
  Claim C7 is not what the code does. With the box b0 (0) as the current box,
  \<^verbatim>\<open>do('work')\<close> returns \<^verbatim>\<open>'work'\<close> and \<^verbatim>\<open>do(None)\<close> returns the generated name
  \<^verbatim>\<open>'act1'\<close>; neither changes a box, and the enacts of b0 stay empty.
\<close>

theorem do_appends_nothing:
  "do boxes_b0 heap_b0 works_b0 (Some ''work'') = Some (Inr (''work'', works_b0, heap_b0)) \<and>
   do boxes_b0 heap_b0 works_b0 None = Some (Inr (''act1'', works_b0\<lparr>bxidx := 2\<rparr>, heap_b0)) \<and>
   enacts (heap_b0 0) = []"
  by (simp add: do_def do_name.simps boxes_b0_def works_b0_def str_int_1 heap_b0_def heap0_def
      Box_init_def)

section \<open>The acts\<close>

subsection \<open>The nabe of a Goact\<close>

text \<open>
  Claim C6, as stated, fails: \<^verbatim>\<open>Goact(nabe='endo')\<close> is constructed, with the nabe godo.
\<close>

theorem Goact_nabe_counterexample:
  "Goact_init (ActBase_init ''Goact'' 0) LNone None
     \<lparr>kw_name = None, kw_iops = [], kw_nabe = Some Nabe_endo\<rparr> =
   Inr \<lparr>act_name = ''Goact0'', act_iops = [], act_nabe = Nabe_godo,
        dest = LStr ''next'', need = None\<rparr> \<and>
   Nabe_endo \<noteq> Nabe_godo"
  by (simp add: Goact_init_def ActBase_init_def act.extend_def str_nat.simps digit_char_def
      Nabe_endo_def Nabe_godo_def)

text \<open>
  Claim C6, amended. Whatever nabe is passed, \<^verbatim>\<open>Goact.__init__\<close> replaces it by godo
  before the initialiser of the superclass runs, so the construction does what it does with
  the godo nabe; with the base initialiser that keeps the nabe it is given, the construction
  succeeds and the nabe of the act is godo. The check of the nabe never raises.
\<close>

theorem Goact_nabe_overridden:
  "Goact_init base dst nd (kwa\<lparr>kw_nabe := n\<rparr>) = Goact_init base dst nd (kwa\<lparr>kw_nabe := Some Nabe_godo\<rparr>) \<and>
   (\<exists>g. Goact_init (ActBase_init cls idx) dst nd (kwa\<lparr>kw_nabe := n\<rparr>) = Inr g \<and>
        act_nabe g = Nabe_godo)"
  by (simp add: Goact_init_def ActBase_init_def act.extend_def)


subsection \<open>UpdateMark and the need for updated\<close>

lemma split_dots_size:
  "sum_list (map length (split_dots s)) + length (split_dots s) = Suc (length s)"
proof (induction s)
  case Nil
  then show ?case by simp
next
  case (Cons c cs)
  then show ?case by (cases "split_dots cs") (simp_all)
qed

text \<open>The key of the mark is never the key of the marked bag: it has the key as a part.\<close>

lemma update_keys_fresh: "mine_key K \<noteq> update_keys B X K"
proof
  assume "mine_key K = update_keys B X K"
  with split_dots_size[of K] show False by (simp add: mine_key_def update_keys_def)
qed

lemma UpdateMark_init_ready:
  assumes "UpdateMark_init io m0 = Inr m"
  shows "\<exists>B X K bag mark. io ''_boxer'' = Some B \<and> io ''_box'' = Some X \<and> io ''_key'' = Some K \<and>
           m (mine_key K) = Some bag \<and> m (update_keys B X K) = Some mark"
proof -
  from assms obtain B where B: "io ''_boxer'' = Some B"
    by (cases "io ''_boxer''") (simp_all add: UpdateMark_init_def Mark_init_def bind_err_def iop_def)
  from assms B obtain X where X: "io ''_box'' = Some X"
    by (cases "io ''_box''") (simp_all add: UpdateMark_init_def Mark_init_def bind_err_def iop_def)
  from assms B X obtain K where K: "io ''_key'' = Some K"
    by (cases "io ''_key''") (simp_all add: UpdateMark_init_def Mark_init_def bind_err_def iop_def)
  from assms B X K obtain bag where bag: "m0 (mine_key K) = Some bag"
    by (cases "m0 (mine_key K)") (simp_all add: UpdateMark_init_def Mark_init_def bind_err_def iop_def)
  from assms B X K bag have m: "m = (if m0 (update_keys B X K) = None
      then m0(update_keys B X K \<mapsto> Bag_init) else m0)"
    by (auto simp: UpdateMark_init_def Mark_init_def bind_err_def iop_def Let_def split: if_splits)
  from m bag update_keys_fresh[of K B X] have "m (mine_key K) = Some bag" by simp
  moreover from m have "\<exists>mark. m (update_keys B X K) = Some mark" by auto
  ultimately show ?thesis using B X K by blast
qed








end
